theory Spec2Isabelle
  imports Main
begin

section \<open>The scaling engine of lib/benchpark/scaling.py\<close>

subsection \<open>Data model\<close>

text \<open>
  A key of \<open>input_variables\<close> is a Python \<open>str\<close>, a tuple, or something else. The
  members of a tuple are \<open>str\<close> or something else; an \<open>int\<close> stands for every key
  or member that is not a \<open>str\<close>. A value is an \<open>int\<close>, a list of \<open>int\<close>, or
  something else (\<open>VOther\<close>: a value that is neither an \<open>int\<close> nor a list). The members
  of a list are integers in this model, so the member test of line 101,
  \<open>all(isinstance(i, int) for i in v)\<close>, holds of every \<open>VList\<close>; lists with other
  members are outside the model.
\<close>

datatype atom = AStr string | AInt int

datatype key = KStr string | KInt int | KTup "atom list"

datatype val = VInt int | VList "int list" | VOther

text \<open>
  A Python \<open>dict\<close> keeps insertion order and the engine depends on it (first key, first
  list-valued entry), so a dictionary is an association list whose keys are distinct.
\<close>

type_synonym ('k, 'v) dict = "('k \<times> 'v) list"

type_synonym variables = "(key, val) dict"

text \<open>
  The errors of the engine. The six \<open>RuntimeError\<close>s raised by
  \<open>scale_experiment_variables\<close> are told apart by their message; the other four are the
  built-in exceptions that \<open>next\<close>, a subscript, \<open>min\<close> and \<open>%\<close> raise.
\<close>

datatype error =
    InvalidOrderingVariable          \<comment> \<open>"Invalid ordering variable"\<close>
  | ExpectedStrInt                   \<comment> \<open>"Invalid key-value pair. Expected type str->int"\<close>
  | LengthMismatch                   \<comment> \<open>"Invalid value. Length of key ... does not match ..."\<close>
  | DifferentDimensions              \<comment> \<open>"Variables to be scaled have different dimensions"\<close>
  | ExpectedTupleList                \<comment> \<open>"Invalid key-value pair. Expected type tuple(str)->list[int]"\<close>
  | InvalidKey                       \<comment> \<open>"Invalid key. Expected type str or tuple(str)"\<close>
  | StopIteration                    \<comment> \<open>\<open>next(iter(d))\<close> on an empty dict\<close>
  | KeyError                         \<comment> \<open>\<open>d[k]\<close> with \<open>k\<close> absent\<close>
  | ValueError                       \<comment> \<open>\<open>min([])\<close>\<close>
  | ZeroDivisionError                \<comment> \<open>\<open>e % 0\<close>\<close>

subsection \<open>Dictionary operations\<close>

text \<open>
  \<open>d[k] = v\<close>: an existing key keeps its position and takes the new value, a new key is
  appended.
\<close>

fun dict_set :: "('k, 'v) dict \<Rightarrow> 'k \<Rightarrow> 'v \<Rightarrow> ('k, 'v) dict" where
  "dict_set [] k v = [(k, v)]"
| "dict_set ((k', v') # d) k v =
     (if k' = k then (k', v) # d else (k', v') # dict_set d k v)"

text \<open>\<open>a | b\<close>: a copy of \<open>a\<close> updated with the items of \<open>b\<close> in their order.\<close>

definition dict_union :: "('k, 'v) dict \<Rightarrow> ('k, 'v) dict \<Rightarrow> ('k, 'v) dict" where
  "dict_union a b = fold (\<lambda>(k, v) d. dict_set d k v) b a"

text \<open>\<open>next(iter(d))\<close>: the first key, \<open>StopIteration\<close> on an empty dict.\<close>

fun first_key :: "('k, 'v) dict \<Rightarrow> error + 'k" where
  "first_key [] = Inl StopIteration"
| "first_key ((k, v) # d) = Inr k"

subsection \<open>configure_scaling_policy (lines 39-52)\<close>

text \<open>Lines 41-45: the length of the first list-valued entry, 1 when there is none.\<close>

fun count_dims :: "variables \<Rightarrow> nat" where
  "count_dims [] = 1"
| "count_dims ((k, VList xs) # rest) = length xs"
| "count_dims ((k, v) # rest) = count_dims rest"

text \<open>\<open>min(val)\<close> of a list of integers: \<open>ValueError\<close> on the empty list.\<close>

fun py_min :: "int list \<Rightarrow> error + int" where
  "py_min [] = Inl ValueError"
| "py_min (x # xs) = Inr (fold min xs x)"

text \<open>
  \<open>val.index(m)\<close>: the position of the first member equal to \<open>m\<close>. It is only called
  with \<open>m = min(val)\<close>, which is a member.
\<close>

fun index_of :: "int \<Rightarrow> int list \<Rightarrow> nat" where
  "index_of m [] = 0"
| "index_of m (x # xs) = (if x = m then 0 else Suc (index_of m xs))"

text \<open>Line 50: \<open>val.index(min(val)) if isinstance(val, list) else 0\<close>.\<close>

fun min_dim_of :: "val \<Rightarrow> error + nat" where
  "min_dim_of (VList xs) =
     (case py_min xs of Inl e \<Rightarrow> Inl e | Inr m \<Rightarrow> Inr (index_of m xs))"
| "min_dim_of v = Inr 0"

definition configure_scaling_policy :: "variables \<Rightarrow> key \<Rightarrow> error + nat list" where
  "configure_scaling_policy input_variables scaling_variable =
     (let n_dims = count_dims input_variables in
      case map_of input_variables scaling_variable of
        None \<Rightarrow> Inl KeyError
      | Some val \<Rightarrow>
          (case min_dim_of val of
             Inl e \<Rightarrow> Inl e
           | Inr min_dim \<Rightarrow> Inr (map (\<lambda>i. (min_dim + i) mod n_dims) [0..<n_dims])))"

subsection \<open>scale_experiment_variables (lines 76-153)\<close>

text \<open>
  The optional argument \<open>scaling_variable\<close>: \<open>None\<close> when it is not given. Line 84 tests
  \<open>not scaling_variable\<close>, which also holds of the empty string, the empty tuple and 0.
\<close>

fun falsy :: "key option \<Rightarrow> bool" where
  "falsy None = True"
| "falsy (Some (KStr s)) = (s = [])"
| "falsy (Some (KInt i)) = (i = 0)"
| "falsy (Some (KTup ks)) = (ks = [])"

fun is_str :: "atom \<Rightarrow> bool" where
  "is_str (AStr s) = True"
| "is_str (AInt i) = False"

text \<open>
  Lines 95-118, the validation loop over the items, with the variable \<open>n_dims\<close> passed
  along (\<open>None\<close> at the start). Line 107 tests \<open>not n_dims\<close>, which holds of \<open>None\<close> and
  of 0.
\<close>

fun check_variables :: "nat option \<Rightarrow> variables \<Rightarrow> error + nat option" where
  "check_variables n_dims [] = Inr n_dims"
| "check_variables n_dims ((KStr s, v) # rest) =
     (case v of
        VInt i \<Rightarrow> check_variables n_dims rest
      | _ \<Rightarrow> Inl ExpectedStrInt)"
| "check_variables n_dims ((KTup ks, v) # rest) =
     (if list_all is_str ks then
        (case v of
           VList xs \<Rightarrow>
             if length ks \<noteq> length xs then Inl LengthMismatch
             else
               let n_dims' = (if n_dims = None \<or> n_dims = Some 0 then Some (length xs)
                              else n_dims)
               in if Some (length xs) \<noteq> n_dims' then Inl DifferentDimensions
                  else check_variables n_dims' rest
         | _ \<Rightarrow> Inl ExpectedTupleList)
      else Inl InvalidKey)"
| "check_variables n_dims ((KInt i, v) # rest) = Inl InvalidKey"

text \<open>
  Lines 125-129: one accumulator per dimension, holding the base value. The validation
  rejects every value that is neither an integer nor a list (lemma
  \<open>check_variables_entry_ok\<close> below), so the case \<open>VOther\<close> is never reached; likewise the
  case \<open>KInt\<close> of \<open>unpack_item\<close>.
\<close>

type_synonym scaled = "(key, int list list) dict"

fun seed :: "val \<Rightarrow> int list list" where
  "seed (VList xs) = map (\<lambda>v. [v]) xs"
| "seed (VInt i) = [[i]]"
| "seed VOther = []"

text \<open>
  Lines 135-144, one variable in experiment \<open>exp_num\<close>. A variable with one accumulator
  is always scaled. Otherwise each accumulator takes a new last value; the subscript of
  line 142 divides by \<open>len(scaling_order_index)\<close>, and is only evaluated when there is
  an accumulator to enumerate. Accumulators are never empty, so \<open>p_val[-1]\<close> is their
  last member.
\<close>

definition scale_param :: "nat list \<Rightarrow> int \<Rightarrow> nat \<Rightarrow> int list list \<Rightarrow> error + int list list" where
  "scale_param scaling_order_index scaling_factor exp_num param =
     (if length param = 1 then
        Inr [hd param @ [last (hd param) * scaling_factor]]
      else if param = [] then Inr []
      else if scaling_order_index = [] then Inl ZeroDivisionError
      else Inr (map (\<lambda>(p_idx, p_val).
             p_val @ [if p_idx = scaling_order_index ! (exp_num mod length scaling_order_index)
                      then last p_val * scaling_factor else last p_val])
            (enumerate 0 param)))"

text \<open>Line 134: all variables in one experiment; an exception ends the call.\<close>

fun scale_step :: "nat list \<Rightarrow> int \<Rightarrow> nat \<Rightarrow> scaled \<Rightarrow> error + scaled" where
  "scale_step ord f e [] = Inr []"
| "scale_step ord f e ((k, param) # rest) =
     (case scale_param ord f e param of
        Inl err \<Rightarrow> Inl err
      | Inr param' \<Rightarrow>
          (case scale_step ord f e rest of
             Inl err \<Rightarrow> Inl err
           | Inr rest' \<Rightarrow> Inr ((k, param') # rest')))"

text \<open>Line 133: the experiments \<open>range(num_exprs - 1)\<close>, in order.\<close>

fun scale_loop :: "nat list \<Rightarrow> int \<Rightarrow> nat list \<Rightarrow> scaled \<Rightarrow> error + scaled" where
  "scale_loop ord f [] sv = Inr sv"
| "scale_loop ord f (e # es) sv =
     (case scale_step ord f e sv of
        Inl err \<Rightarrow> Inl err
      | Inr sv' \<Rightarrow> scale_loop ord f es sv')"

text \<open>Lines 150 and 152: a sequence of one value is reduced to that value.\<close>

definition reduce :: "int list \<Rightarrow> val" where
  "reduce xs = (if length xs > 1 then VList xs else VInt (hd xs))"

text \<open>
  Lines 147-152, one item: a tuple key gives one output key per member, another key is
  an output key itself.
\<close>

fun unpack_item :: "(atom, val) dict \<Rightarrow> key \<times> int list list \<Rightarrow> (atom, val) dict" where
  "unpack_item out (KTup ks, v) =
     fold (\<lambda>i out. dict_set out (ks ! i) (reduce (v ! i))) [0..<length ks] out"
| "unpack_item out (KStr s, v) = dict_set out (AStr s) (reduce (v ! 0))"
| "unpack_item out (KInt i, v) = dict_set out (AInt i) (reduce (v ! 0))"

definition unpack :: "scaled \<Rightarrow> (atom, val) dict" where
  "unpack sv = fold (\<lambda>item out. unpack_item out item) sv []"

definition resolve_driver :: "variables \<Rightarrow> key option \<Rightarrow> key" where
  "resolve_driver input_variables scaling_variable =
     (if falsy scaling_variable then fst (hd input_variables) else the scaling_variable)"

definition scale_experiment_variables ::
  "variables \<Rightarrow> int \<Rightarrow> int \<Rightarrow> key option \<Rightarrow> error + (atom, val) dict" where
  "scale_experiment_variables input_variables scaling_factor num_exprs scaling_variable =
     (if input_variables = [] then Inr []
      else
        let sv = resolve_driver input_variables scaling_variable in
        if sv \<notin> fst ` set input_variables then Inl InvalidOrderingVariable
        else
          case check_variables None input_variables of
            Inl e \<Rightarrow> Inl e
          | Inr n \<Rightarrow>
              (case configure_scaling_policy input_variables sv of
                 Inl e \<Rightarrow> Inl e
               | Inr scaling_order_index \<Rightarrow>
                   (case scale_loop scaling_order_index scaling_factor
                           [0..<nat (num_exprs - 1)]
                           (map (\<lambda>(key, val). (key, seed val)) input_variables) of
                      Inl e \<Rightarrow> Inl e
                    | Inr scaled_variables \<Rightarrow> Inr (unpack scaled_variables))))"

subsection \<open>The selectors (lines 163-168 and 182-191)\<close>

definition generate_strong_scaling_params ::
  "variables \<Rightarrow> int \<Rightarrow> int \<Rightarrow> error + (atom, val) dict" where
  "generate_strong_scaling_params resource_variable scaling_factor num_exprs =
     scale_experiment_variables resource_variable scaling_factor num_exprs None"

definition generate_weak_scaling_params ::
  "variables \<Rightarrow> variables \<Rightarrow> int \<Rightarrow> int \<Rightarrow> error + (atom, val) dict" where
  "generate_weak_scaling_params resource_variable problem_size_variables scaling_factor num_exprs =
     (case first_key resource_variable of
        Inl e \<Rightarrow> Inl e
      | Inr scaling_variable \<Rightarrow>
          scale_experiment_variables (dict_union resource_variable problem_size_variables)
            scaling_factor num_exprs (Some scaling_variable))"

subsection \<open>The planner's contract in the words of the specification\<close>

text \<open>
  The dimension count \<open>k\<close> of the specification: the length of the first list-valued
  entry in insertion order, 1 when there is none.
\<close>

definition spec_dimension :: "variables \<Rightarrow> nat" where
  "spec_dimension vars =
     (case List.find (\<lambda>(k, v). case v of VList xs \<Rightarrow> True | _ \<Rightarrow> False) vars of
        None \<Rightarrow> 1
      | Some (k, v) \<Rightarrow> (case v of VList xs \<Rightarrow> length xs | _ \<Rightarrow> 1))"

text \<open>
  The start index of the specification: for a list, the index of the first occurrence
  of its minimum; for any other value, 0.
\<close>

definition spec_start :: "val \<Rightarrow> nat \<Rightarrow> bool" where
  "spec_start v s =
     (case v of
        VList xs \<Rightarrow> s < length xs \<and> xs ! s = Min (set xs) \<and> (\<forall>j<s. xs ! j \<noteq> Min (set xs))
      | _ \<Rightarrow> s = 0)"

subsection \<open>Well-formed entries\<close>

text \<open>
  The entries of the data model: a \<open>str\<close> name with an integer, or a tuple of \<open>str\<close> with
  a list of as many integers.
\<close>

fun entry_ok :: "key \<times> val \<Rightarrow> bool" where
  "entry_ok (KStr s, VInt i) = True"
| "entry_ok (KTup ks, VList xs) = (list_all is_str ks \<and> length ks = length xs)"
| "entry_ok (k, v) = False"

subsection \<open>The base values of a variable set\<close>

text \<open>
  The component names of an entry with their base values, in order: the members of a
  tuple name with the members of its list, a \<open>str\<close> name with its integer.
\<close>

fun components :: "key \<times> val \<Rightarrow> (atom \<times> int) list" where
  "components (KTup ks, VList xs) = zip ks xs"
| "components (KStr s, VInt i) = [(AStr s, i)]"
| "components (k, v) = []"

text \<open>
  The original values, reduced to bare integers: the dictionary that is assigned, in
  order, the base value of each component name.
\<close>

definition base_values :: "variables \<Rightarrow> (atom, val) dict" where
  "base_values vars =
     fold (\<lambda>(a, x) out. dict_set out a (VInt x)) (concat (map components vars)) []"

subsection \<open>Counting how often a dimension is scaled\<close>

text \<open>
  The number of experiments \<open>exp_num\<close> in \<open>range(j)\<close> in which the test of lines 141-142,
  \<open>p_idx == scaling_order_index[exp_num % len(scaling_order_index)]\<close>, selects dimension
  \<open>d\<close>.
\<close>

definition times_scaled :: "nat list \<Rightarrow> nat \<Rightarrow> nat \<Rightarrow> nat" where
  "times_scaled ord d j = length (filter (\<lambda>e. ord ! (e mod length ord) = d) [0..<j])"

text \<open>
  The expected accumulators of a variable with the base values \<open>base\<close> after \<open>j\<close>
  experiments: dimension \<open>d\<close> holds, for each experiment, its base value times the
  factor to the power of the number of times it has been selected so far.
\<close>

definition sweep_values :: "nat list \<Rightarrow> int \<Rightarrow> int list \<Rightarrow> nat \<Rightarrow> int list list" where
  "sweep_values ord f base j =
     map (\<lambda>d. map (\<lambda>i. base ! d * f ^ times_scaled ord d i) [0..<Suc j]) [0..<length base]"

section \<open>Properties of the dictionary operations\<close>

lemma map_of_dict_set: "map_of (dict_set d k v) = (map_of d)(k \<mapsto> v)"
  by (induction d k v rule: dict_set.induct) (auto simp: fun_eq_iff)

lemma map_add_upd_swap:
  "m' k = None \<Longrightarrow> m(k \<mapsto> v) ++ m' = m ++ m'(k \<mapsto> v)"
  by (auto simp: fun_eq_iff map_add_def split: option.splits)

lemma map_of_fold_dict_set:
  "distinct (map fst b) \<Longrightarrow>
     map_of (fold (\<lambda>(k, v) d. dict_set d k v) b a) = map_of a ++ map_of b"
proof (induction b arbitrary: a)
  case Nil
  then show ?case by simp
next
  case (Cons p b)
  obtain k v where p: "p = (k, v)" by (cases p)
  from Cons.prems have n: "map_of b k = None" and d: "distinct (map fst b)"
    by (auto simp: p map_of_eq_None_iff)
  have "map_of (fold (\<lambda>(k, v) d. dict_set d k v) (p # b) a) =
          map_of (fold (\<lambda>(k, v) d. dict_set d k v) b (dict_set a k v))"
    by (simp add: p)
  also have "\<dots> = map_of (dict_set a k v) ++ map_of b"
    by (rule Cons.IH[OF d])
  also have "\<dots> = (map_of a)(k \<mapsto> v) ++ map_of b"
    by (simp only: map_of_dict_set)
  also have "\<dots> = map_of a ++ (map_of b)(k \<mapsto> v)"
    using n by (rule map_add_upd_swap[where m' = "map_of b" and k = k])
  also have "\<dots> = map_of a ++ map_of (p # b)"
    by (simp only: p map_of.simps fst_conv snd_conv)
  finally show ?case .
qed

lemma map_of_dict_union:
  "distinct (map fst b) \<Longrightarrow> map_of (dict_union a b) = map_of a ++ map_of b"
  by (simp add: dict_union_def map_of_fold_dict_set)

lemma resolve_driver_first:
  "vars \<noteq> [] \<Longrightarrow> resolve_driver vars (Some (fst (hd vars))) = resolve_driver vars None"
  by (simp add: resolve_driver_def)

section \<open>The selectors\<close>

text \<open>
  Claim C1, as stated: in weak scaling the merged variable set holds, for every key of
  both groups, the value of the resource group. It fails: \<open>resource | problem_size\<close> gives
  a key of both groups the value of the problem-size group. With the resource group
  \<open>{"n": 1}\<close> and the problem-size group \<open>{"n": 5}\<close> the merged set maps \<open>"n"\<close> to 5, and
  with one experiment the result is \<open>{"n": 5}\<close>.
\<close>

theorem weak_merge_resource_wins_counterexample:
  "map_of (dict_union [(KStr ''n'', VInt 1)] [(KStr ''n'', VInt 5)]) (KStr ''n'')
     \<noteq> map_of [(KStr ''n'', VInt 1)] (KStr ''n'')
   \<and> generate_weak_scaling_params [(KStr ''n'', VInt 1)] [(KStr ''n'', VInt 5)] 2 1
       = Inr [(AStr ''n'', VInt 5)]"
  by (simp add: generate_weak_scaling_params_def dict_union_def
      scale_experiment_variables_def resolve_driver_def configure_scaling_policy_def
      unpack_def reduce_def)

text \<open>
  Claim C1, amended: for a resource group that is not empty, weak scaling sweeps the
  merged variable set with the first key of the resource group as the driver, and the
  merged set gives every key of the problem-size group the value of the problem-size
  group, and every other key the value of the resource group.
\<close>

theorem weak_merge_problem_size_wins:
  assumes "resource_variable \<noteq> []" and "distinct (map fst problem_size_variables)"
  shows "generate_weak_scaling_params resource_variable problem_size_variables f c =
           scale_experiment_variables (dict_union resource_variable problem_size_variables) f c
             (Some (fst (hd resource_variable)))
         \<and> map_of (dict_union resource_variable problem_size_variables) k =
             (case map_of problem_size_variables k of
                Some v \<Rightarrow> Some v
              | None \<Rightarrow> map_of resource_variable k)"
proof -
  obtain k0 v0 rest where r: "resource_variable = (k0, v0) # rest"
    using assms(1) by (cases resource_variable) auto
  have 1: "generate_weak_scaling_params resource_variable problem_size_variables f c =
           scale_experiment_variables (dict_union resource_variable problem_size_variables) f c
             (Some (fst (hd resource_variable)))"
    by (simp add: generate_weak_scaling_params_def r)
  have 2: "map_of (dict_union resource_variable problem_size_variables) k =
             (case map_of problem_size_variables k of
                Some v \<Rightarrow> Some v
              | None \<Rightarrow> map_of resource_variable k)"
    by (simp add: map_of_dict_union[OF assms(2)] map_add_def)
  from 1 2 show ?thesis by blast
qed

theorem weak_merge_problem_size_wins_witness:
  "[(KStr ''n'', VInt 1), (KStr ''m'', VInt 3)] \<noteq> []
   \<and> distinct (map fst [(KStr ''n'', VInt 5), (KStr ''p'', VInt 7)])
   \<and> generate_weak_scaling_params [(KStr ''n'', VInt 1), (KStr ''m'', VInt 3)]
         [(KStr ''n'', VInt 5), (KStr ''p'', VInt 7)] 2 3 =
       scale_experiment_variables
         (dict_union [(KStr ''n'', VInt 1), (KStr ''m'', VInt 3)]
            [(KStr ''n'', VInt 5), (KStr ''p'', VInt 7)]) 2 3 (Some (KStr ''n''))
   \<and> map_of (dict_union [(KStr ''n'', VInt 1), (KStr ''m'', VInt 3)]
         [(KStr ''n'', VInt 5), (KStr ''p'', VInt 7)]) (KStr ''n'') = Some (VInt 5)"
  using weak_merge_problem_size_wins
    [of "[(KStr ''n'', VInt 1), (KStr ''m'', VInt 3)]"
        "[(KStr ''n'', VInt 5), (KStr ''p'', VInt 7)]" 2 3 "KStr ''n''"]
  by simp

text \<open>
  Claim C9, as stated: for every resource variable set, weak scaling with an empty
  problem-size set returns what strong scaling returns. It fails on the empty resource
  set: weak scaling takes the first key of the resource group before anything else
  (line 185) and raises \<open>StopIteration\<close>, where strong scaling returns the empty result.
\<close>

theorem weak_empty_problem_counterexample:
  "generate_weak_scaling_params [] [] 2 3 \<noteq> generate_strong_scaling_params [] 2 3"
  by (simp add: generate_weak_scaling_params_def generate_strong_scaling_params_def
      scale_experiment_variables_def)

text \<open>
  Claim C9, amended: for every resource variable set that is not empty, every factor and
  every count, weak scaling with that resource set and an empty problem-size set returns
  exactly what strong scaling returns on the resource set.
\<close>

theorem weak_empty_problem_is_strong:
  assumes "resource_variable \<noteq> []"
  shows "generate_weak_scaling_params resource_variable [] f c =
         generate_strong_scaling_params resource_variable f c"
proof -
  obtain k0 v0 rest where r: "resource_variable = (k0, v0) # rest"
    using assms by (cases resource_variable) auto
  have "resolve_driver resource_variable (Some k0) = resolve_driver resource_variable None"
    using resolve_driver_first[OF assms] by (simp add: r)
  then show ?thesis
    by (simp add: generate_weak_scaling_params_def generate_strong_scaling_params_def r
        dict_union_def scale_experiment_variables_def)
qed

theorem weak_empty_problem_is_strong_witness:
  "[(KTup [AStr ''a'', AStr ''b''], VList [4, 1])] \<noteq> []
   \<and> generate_weak_scaling_params [(KTup [AStr ''a'', AStr ''b''], VList [4, 1])] [] 2 3 =
       generate_strong_scaling_params [(KTup [AStr ''a'', AStr ''b''], VList [4, 1])] 2 3"
  using weak_empty_problem_is_strong [of "[(KTup [AStr ''a'', AStr ''b''], VList [4, 1])]" 2 3]
  by simp

section \<open>The scaling-order planner\<close>

lemma py_min_Min:
  assumes "xs \<noteq> []"
  shows "py_min xs = Inr (Min (set xs))"
proof (cases xs)
  case Nil
  with assms show ?thesis by simp
next
  case (Cons a list)
  with Min.set_eq_fold[of a list] show ?thesis by simp
qed

lemma index_of_first:
  "m \<in> set xs \<Longrightarrow>
     index_of m xs < length xs \<and> xs ! index_of m xs = m \<and> (\<forall>j<index_of m xs. xs ! j \<noteq> m)"
proof (induction xs)
  case Nil
  then show ?case by simp
next
  case (Cons x xs)
  show ?case
  proof (cases "x = m")
    case True
    then show ?thesis by simp
  next
    case False
    with Cons.prems have "m \<in> set xs" by simp
    from Cons.IH[OF this] False show ?thesis
      by (auto simp: nth_Cons split: nat.splits)
  qed
qed

text \<open>The rotation \<open>[(s + i) mod k for i in range(k)]\<close> is a permutation of \<open>0..k-1\<close>.\<close>

lemma rot_inj_le:
  assumes "i \<le> j" "j < k" "(s + i) mod k = (s + j) mod (k::nat)"
  shows "i = j"
proof -
  have "s + i \<le> s + j" using assms(1) by simp
  then have "k dvd (s + j) - (s + i)"
    using assms(3) by (metis mod_eq_dvd_iff_nat)
  then have "k dvd j - i" by simp
  moreover have "j - i < k" using assms(2) by simp
  ultimately have "j - i = 0" by (meson dvd_imp_le not_less zero_less_iff_neq_zero)
  with assms(1) show ?thesis by simp
qed

lemma rot_inj:
  assumes "i < k" "j < k" "(s + i) mod k = (s + j) mod (k::nat)"
  shows "i = j"
proof (cases "i \<le> j")
  case True
  then show ?thesis using rot_inj_le[of i j k s] assms by simp
next
  case False
  then have "j \<le> i" by simp
  then show ?thesis using rot_inj_le[of j i k s] assms by simp
qed

lemma rot_inj_on: "inj_on (\<lambda>i. (s + i) mod (k::nat)) {0..<k}"
  by (rule inj_onI) (auto dest: rot_inj)

lemma rot_image: "(\<lambda>i. (s + i) mod (k::nat)) ` {0..<k} = {0..<k}"
proof (rule card_subset_eq)
  show "finite {0..<k}" by simp
  show "(\<lambda>i. (s + i) mod k) ` {0..<k} \<subseteq> {0..<k}" by auto
  show "card ((\<lambda>i. (s + i) mod k) ` {0..<k}) = card {0..<k}"
    by (rule card_image[OF rot_inj_on])
qed

lemma rot_set: "set (map (\<lambda>i. (s + i) mod (k::nat)) [0..<k]) = {0..<k}"
  using rot_image[of s k] by simp

lemma rot_distinct: "distinct (map (\<lambda>i. (s + i) mod (k::nat)) [0..<k])"
  using rot_inj_on[of s k] by (simp add: distinct_map)

lemma rot_hd: "s < k \<Longrightarrow> hd (map (\<lambda>i. (s + i) mod (k::nat)) [0..<k]) = s"
  by (cases k) (simp_all add: upt_rec hd_map)

lemma count_dims_spec: "count_dims vars = spec_dimension vars"
  unfolding spec_dimension_def
  by (induction vars rule: count_dims.induct) simp_all

lemma count_dims_pos: "VList [] \<notin> snd ` set vars \<Longrightarrow> 1 \<le> count_dims vars"
proof (induction vars rule: count_dims.induct)
  case (2 k xs rest)
  then have "xs \<noteq> []" by force
  then show ?case by (cases xs) simp_all
qed simp_all

lemma min_dim_of_spec:
  assumes "v \<noteq> VList []"
  shows "\<exists>s. min_dim_of v = Inr s \<and> spec_start v s"
proof (cases v)
  case (VList xs)
  with assms have ne: "xs \<noteq> []" by simp
  then have "Min (set xs) \<in> set xs" by (simp add: Min_in)
  from index_of_first[OF this] show ?thesis
    by (simp add: VList py_min_Min[OF ne] spec_start_def)
qed (simp_all add: spec_start_def)

text \<open>
  Claim C3, as stated: for every variable set and every driver that is a key of the set,
  the planner returns the rotation of \<open>0..k-1\<close> that starts at the index of the first
  minimum of the driver's value. It fails when the driver's value is the empty list,
  the value of the empty tuple name, which the validation of the sweep generator
  accepts: \<open>min([])\<close> raises \<open>ValueError\<close>. And the rotation does not start at the
  driver's minimum when the driver has more dimensions than the first list-valued
  entry, which only the validation of the sweep generator excludes: with the lists
  \<open>[5, 6]\<close> and \<open>[3, 2, 1]\<close> and the second as the driver, the minimum is at index 2
  and the order is \<open>[0, 1]\<close>.
\<close>

theorem planner_rotation_counterexample:
  "configure_scaling_policy [(KTup [], VList [])] (KTup []) = Inl ValueError
   \<and> configure_scaling_policy
        [(KTup [AStr ''a'', AStr ''b''], VList [5, 6]),
         (KTup [AStr ''c'', AStr ''d'', AStr ''e''], VList [3, 2, 1])]
        (KTup [AStr ''c'', AStr ''d'', AStr ''e'']) = Inr [0, 1]"
  by code_simp

text \<open>
  Claim C3, amended: for every variable set and every driver that is a key of the set
  and whose value is not the empty list, the planner returns exactly
  \<open>[(start + i) mod k for i in 0..k-1]\<close>, where \<open>k\<close> is the length of the first
  list-valued entry in insertion order (1 if there is none) and \<open>start\<close> is the index of
  the first occurrence of the minimum of the driver's value if that value is a list, 0
  otherwise. The output is a permutation of \<open>0..k-1\<close>, and it starts at \<open>start\<close> whenever
  \<open>start < k\<close>, as it is when the driver's value has \<open>k\<close> dimensions.
\<close>

theorem planner_rotation:
  assumes "map_of input_variables scaling_variable = Some v" and "v \<noteq> VList []"
  shows "\<exists>start ord.
           configure_scaling_policy input_variables scaling_variable = Inr ord
         \<and> ord = map (\<lambda>i. (start + i) mod spec_dimension input_variables)
                   [0..<spec_dimension input_variables]
         \<and> spec_start v start
         \<and> set ord = {0..<spec_dimension input_variables} \<and> distinct ord
         \<and> (start < spec_dimension input_variables \<longrightarrow> hd ord = start)"
proof -
  from min_dim_of_spec[OF assms(2)] obtain s where s: "min_dim_of v = Inr s" "spec_start v s"
    by blast
  let ?k = "spec_dimension input_variables"
  let ?ord = "map (\<lambda>i. (s + i) mod ?k) [0..<?k]"
  have "configure_scaling_policy input_variables scaling_variable = Inr ?ord"
    by (simp add: configure_scaling_policy_def assms(1) s(1) count_dims_spec Let_def)
  moreover have "set ?ord = {0..<?k}" by (rule rot_set)
  moreover have "distinct ?ord" by (rule rot_distinct)
  moreover have "s < ?k \<longrightarrow> hd ?ord = s" using rot_hd by blast
  ultimately show ?thesis using s(2) by blast
qed

theorem planner_rotation_witness:
  "map_of [(KTup [AStr ''a'', AStr ''b'', AStr ''c''], VList [3, 1, 2]), (KStr ''x'', VInt 10)]
      (KTup [AStr ''a'', AStr ''b'', AStr ''c'']) = Some (VList [3, 1, 2])
   \<and> VList [3, 1, 2] \<noteq> VList []
   \<and> configure_scaling_policy
        [(KTup [AStr ''a'', AStr ''b'', AStr ''c''], VList [3, 1, 2]), (KStr ''x'', VInt 10)]
        (KTup [AStr ''a'', AStr ''b'', AStr ''c'']) = Inr [1, 2, 0]"
  using planner_rotation
    [of "[(KTup [AStr ''a'', AStr ''b'', AStr ''c''], VList [3, 1, 2]), (KStr ''x'', VInt 10)]"
        "KTup [AStr ''a'', AStr ''b'', AStr ''c'']" "VList [3, 1, 2]"]
  by (simp add: configure_scaling_policy_def upt_rec)

text \<open>
  Claim C7, as stated: the planner has no failure conditions and returns, for every
  variable set and driver name, a sequence of length \<open>k \<ge> 1\<close>. It fails twice: a driver
  that is not a key raises \<open>KeyError\<close> at line 49 (the sweep generator checks the driver
  before it calls the planner), and when the first list-valued entry is the empty list
  the planner returns the empty sequence.
\<close>

theorem planner_total_counterexample:
  "configure_scaling_policy [(KStr ''x'', VInt 1)] (KStr ''y'') = Inl KeyError
   \<and> configure_scaling_policy [(KTup [], VList []), (KStr ''x'', VInt 1)] (KStr ''x'') = Inr []"
  by (simp add: configure_scaling_policy_def)

text \<open>
  Claim C7, amended: for every variable set none of whose values is the empty list, and
  every driver that is a key of the set, the planner returns without error a sequence
  of length \<open>k\<close>, and \<open>k \<ge> 1\<close>.
\<close>

theorem planner_total:
  assumes "map_of input_variables scaling_variable = Some v"
    and "VList [] \<notin> snd ` set input_variables"
  shows "\<exists>ord. configure_scaling_policy input_variables scaling_variable = Inr ord
           \<and> length ord = spec_dimension input_variables \<and> 1 \<le> length ord"
proof -
  have "(scaling_variable, v) \<in> set input_variables" using assms(1) by (rule map_of_SomeD)
  then have "v \<in> snd ` set input_variables" by force
  with assms(2) have "v \<noteq> VList []" by metis
  from min_dim_of_spec[OF this] obtain s where s: "min_dim_of v = Inr s" by blast
  show ?thesis using count_dims_pos[OF assms(2)]
    by (simp add: configure_scaling_policy_def assms(1) s count_dims_spec Let_def)
qed

theorem planner_total_witness:
  "map_of [(KStr ''x'', VInt 10), (KTup [AStr ''a'', AStr ''b''], VList [4, 1])] (KStr ''x'')
     = Some (VInt 10)
   \<and> VList [] \<notin> snd ` set [(KStr ''x'', VInt 10), (KTup [AStr ''a'', AStr ''b''], VList [4, 1])]
   \<and> configure_scaling_policy
        [(KStr ''x'', VInt 10), (KTup [AStr ''a'', AStr ''b''], VList [4, 1])] (KStr ''x'')
      = Inr [0, 1]"
  using planner_total
    [of "[(KStr ''x'', VInt 10), (KTup [AStr ''a'', AStr ''b''], VList [4, 1])]" "KStr ''x''"
        "VInt 10"]
  by (simp add: configure_scaling_policy_def upt_rec)

section \<open>The sweep generator: errors\<close>

lemma check_variables_errors:
  "check_variables n vars = Inl e \<Longrightarrow>
     e \<in> {ExpectedStrInt, LengthMismatch, DifferentDimensions, ExpectedTupleList, InvalidKey}"
  by (induction n vars rule: check_variables.induct)
     (auto split: val.splits if_splits simp: Let_def)

lemma min_dim_of_errors: "min_dim_of v = Inl e \<Longrightarrow> e = ValueError"
proof (cases v)
  case (VList xs)
  assume "min_dim_of v = Inl e"
  with VList show ?thesis by (cases xs) simp_all
qed simp_all

lemma configure_errors:
  "configure_scaling_policy vars k = Inl e \<Longrightarrow> e = KeyError \<or> e = ValueError"
  by (cases "map_of vars k")
     (auto simp: configure_scaling_policy_def Let_def split: sum.splits
           dest: min_dim_of_errors)

lemma scale_param_errors: "scale_param ord f e p = Inl err \<Longrightarrow> err = ZeroDivisionError"
  by (auto simp: scale_param_def split: if_splits)

lemma scale_step_errors: "scale_step ord f e sv = Inl err \<Longrightarrow> err = ZeroDivisionError"
  by (induction sv arbitrary: err) (auto split: sum.splits dest: scale_param_errors)

lemma scale_loop_errors: "scale_loop ord f es sv = Inl err \<Longrightarrow> err = ZeroDivisionError"
  by (induction es arbitrary: sv) (auto split: sum.splits dest: scale_step_errors)

text \<open>
  Claim C5, as stated: for a non-empty variable set, the sweep generator fails with the
  invalid-driver error if and only if the resolved driver, the supplied driver when one
  is given and the first key otherwise, is not a key. It fails for a supplied driver
  that Python takes for false: line 84 tests \<open>not scaling_variable\<close>, so the empty string
  is replaced by the first key. With \<open>{"x": 1}\<close> and the empty string as the driver,
  which is not a key, the call returns \<open>{"x": 1}\<close>.
\<close>

theorem invalid_driver_iff_counterexample:
  "scale_experiment_variables [(KStr ''x'', VInt 1)] 2 1 (Some (KStr []))
     = Inr [(AStr ''x'', VInt 1)]
   \<and> KStr [] \<notin> fst ` set [(KStr ''x'', VInt 1)]"
  by (simp add: scale_experiment_variables_def resolve_driver_def configure_scaling_policy_def
      unpack_def reduce_def)

text \<open>
  Claim C5, amended: for every non-empty variable set and every driver argument, the
  sweep generator fails with the invalid-driver error if and only if the resolved driver
  is not a key of the variable set, where the resolved driver is the supplied driver
  when it is given and not false in Python's sense (not the empty string, the empty
  tuple or 0), and the first key in insertion order otherwise.
\<close>

theorem invalid_driver_iff:
  assumes "input_variables \<noteq> []"
  shows "(scale_experiment_variables input_variables f c scaling_variable
            = Inl InvalidOrderingVariable)
         = ((if falsy scaling_variable then fst (hd input_variables) else the scaling_variable)
              \<notin> fst ` set input_variables)"
proof (cases "resolve_driver input_variables scaling_variable \<in> fst ` set input_variables")
  case False
  then show ?thesis using assms
    by (simp add: scale_experiment_variables_def resolve_driver_def)
next
  case True
  have "scale_experiment_variables input_variables f c scaling_variable
          \<noteq> Inl InvalidOrderingVariable"
  proof
    assume a: "scale_experiment_variables input_variables f c scaling_variable
          = Inl InvalidOrderingVariable"
    show False
    proof (cases "check_variables None input_variables")
      case (Inl e)
      with a True assms have "e = InvalidOrderingVariable"
        by (simp add: scale_experiment_variables_def)
      with check_variables_errors[OF Inl] show False by simp
    next
      case (Inr n)
      note chk = Inr
      show False
      proof (cases "configure_scaling_policy input_variables
                      (resolve_driver input_variables scaling_variable)")
        case (Inl e)
        with a True assms chk have "e = InvalidOrderingVariable"
          by (simp add: scale_experiment_variables_def)
        with configure_errors[OF Inl] show False by simp
      next
        case (Inr ord)
        with a True assms chk have
          "scale_loop ord f [0..<nat (c - 1)] (map (\<lambda>(key, val). (key, seed val)) input_variables)
             = Inl InvalidOrderingVariable"
          by (simp add: scale_experiment_variables_def split: sum.splits)
        from scale_loop_errors[OF this] show False by simp
      qed
    qed
  qed
  with True show ?thesis by (simp add: resolve_driver_def)
qed

theorem invalid_driver_iff_witness:
  "[(KStr ''x'', VInt 1)] \<noteq> []
   \<and> scale_experiment_variables [(KStr ''x'', VInt 1)] 2 3 (Some (KStr ''missing''))
       = Inl InvalidOrderingVariable
   \<and> KStr ''missing'' \<notin> fst ` set [(KStr ''x'', VInt 1)]"
  using invalid_driver_iff [of "[(KStr ''x'', VInt 1)]" 2 3 "Some (KStr ''missing'')"]
  by simp

lemma check_some_mismatch:
  assumes "list_all entry_ok vars" and "KTup [] \<notin> fst ` set vars" and "0 < k"
    and "(KTup ks, VList xs) \<in> set vars" and "length xs \<noteq> k"
  shows "check_variables (Some k) vars = Inl DifferentDimensions"
  using assms
proof (induction vars)
  case Nil
  then show ?case by simp
next
  case (Cons p vars)
  obtain a v where p: "p = (a, v)" by (cases p)
  from Cons.prems(1) have ok: "entry_ok (a, v)" and oks: "list_all entry_ok vars"
    by (simp_all add: p)
  from Cons.prems(2) have ne: "a \<noteq> KTup []" and nes: "KTup [] \<notin> fst ` set vars"
    by (auto simp: p)
  show ?case
  proof (cases "length xs \<noteq> k \<and> (KTup ks, VList xs) \<in> set vars")
    case True
    then have IH: "check_variables (Some k) vars = Inl DifferentDimensions"
      using Cons.IH[OF oks nes Cons.prems(3)] by simp
    from ok show ?thesis
    proof (cases "(a, v)" rule: entry_ok.cases)
      case (1 s i)
      then show ?thesis using IH by (simp add: p)
    next
      case (2 ks' xs')
      then show ?thesis using IH ok Cons.prems(3) by (simp add: p)
    qed (use ok in auto)
  next
    case False
    with Cons.prems(4,5) have "p = (KTup ks, VList xs)" by auto
    with ok Cons.prems(3,5) show ?thesis by (auto simp: p)
  qed
qed

lemma check_none_mismatch:
  assumes "list_all entry_ok vars" and "KTup [] \<notin> fst ` set vars"
    and "(KTup ks1, VList xs1) \<in> set vars" and "(KTup ks2, VList xs2) \<in> set vars"
    and "length xs1 \<noteq> length xs2"
  shows "check_variables None vars = Inl DifferentDimensions"
  using assms
proof (induction vars)
  case Nil
  then show ?case by simp
next
  case (Cons p vars)
  obtain a v where p: "p = (a, v)" by (cases p)
  from Cons.prems(1) have ok: "entry_ok (a, v)" and oks: "list_all entry_ok vars"
    by (simp_all add: p)
  from Cons.prems(2) have ne: "a \<noteq> KTup []" and nes: "KTup [] \<notin> fst ` set vars"
    by (auto simp: p)
  from ok show ?case
  proof (cases "(a, v)" rule: entry_ok.cases)
    case (1 s i)
    then have "(KTup ks1, VList xs1) \<in> set vars" "(KTup ks2, VList xs2) \<in> set vars"
      using Cons.prems(3,4) by (auto simp: p)
    from Cons.IH[OF oks nes this Cons.prems(5)] 1 show ?thesis by (simp add: p)
  next
    case (2 ks' xs')
    with ok ne have len: "length ks' = length xs'" "0 < length xs'" "list_all is_str ks'"
      by auto
    have "\<exists>ks xs. (KTup ks, VList xs) \<in> set vars \<and> length xs \<noteq> length xs'"
    proof (cases "length xs1 = length xs'")
      case True
      with Cons.prems(5) have "length xs2 \<noteq> length xs'" by simp
      with Cons.prems(4) 2 show ?thesis by (auto simp: p)
    next
      case False
      with Cons.prems(3) 2 show ?thesis by (auto simp: p)
    qed
    then obtain ks xs where "(KTup ks, VList xs) \<in> set vars" "length xs \<noteq> length xs'"
      by blast
    from check_some_mismatch[OF oks nes len(2) this] 2 len show ?thesis
      by (simp add: p)
  qed (use ok in auto)
qed

text \<open>
  Claim C6, as stated: every variable set with two tuple-named, list-valued entries of
  different lengths makes the sweep generator fail with the dimension-mismatch error.
  It fails where an earlier check raises first: a driver that is not a key (line 88),
  or an earlier entry of the wrong type (line 99). It also fails for the empty tuple
  name: line 107 tests \<open>not n_dims\<close>, so after an empty list the next list sets
  \<open>n_dims\<close> anew, and the call returns a result.
\<close>

theorem dimension_mismatch_counterexample:
  "scale_experiment_variables
     [(KTup [AStr ''a''], VList [1]), (KTup [AStr ''b'', AStr ''c''], VList [1, 2])] 2 3
     (Some (KStr ''missing'')) = Inl InvalidOrderingVariable
   \<and> scale_experiment_variables
     [(KStr ''s'', VList [1]), (KTup [AStr ''a''], VList [1]),
      (KTup [AStr ''b'', AStr ''c''], VList [1, 2])] 2 3 None = Inl ExpectedStrInt
   \<and> scale_experiment_variables
     [(KTup [], VList []), (KTup [AStr ''a''], VList [1])] 2 3 (Some (KTup [AStr ''a'']))
       = Inr [(AStr ''a'', VList [1, 2, 4])]"
  by code_simp

text \<open>
  Claim C6, amended: for every variable set whose entries are all well formed (a \<open>str\<close>
  name with an integer, or a non-empty tuple of \<open>str\<close> with a list of as many
  integers), whose resolved driver is a key, and which contains two tuple-named entries
  whose lists have different lengths, the sweep generator fails with the
  dimension-mismatch error and produces no result.
\<close>

theorem dimension_mismatch:
  assumes "list_all entry_ok input_variables"
    and "KTup [] \<notin> fst ` set input_variables"
    and "(if falsy scaling_variable then fst (hd input_variables) else the scaling_variable)
           \<in> fst ` set input_variables"
    and "(KTup ks1, VList xs1) \<in> set input_variables"
    and "(KTup ks2, VList xs2) \<in> set input_variables"
    and "length xs1 \<noteq> length xs2"
  shows "scale_experiment_variables input_variables f c scaling_variable
           = Inl DifferentDimensions"
proof -
  have "input_variables \<noteq> []" using assms(4) by auto
  moreover have "check_variables None input_variables = Inl DifferentDimensions"
    by (rule check_none_mismatch[OF assms(1,2,4,5,6)])
  ultimately show ?thesis using assms(3)
    by (simp add: scale_experiment_variables_def resolve_driver_def)
qed

theorem dimension_mismatch_witness:
  "list_all entry_ok [(KStr ''x'', VInt 3), (KTup [AStr ''a''], VList [1]),
                      (KTup [AStr ''b'', AStr ''c''], VList [1, 2])]
   \<and> KTup [] \<notin> fst ` set [(KStr ''x'', VInt 3), (KTup [AStr ''a''], VList [1]),
                      (KTup [AStr ''b'', AStr ''c''], VList [1, 2])]
   \<and> scale_experiment_variables
       [(KStr ''x'', VInt 3), (KTup [AStr ''a''], VList [1]),
        (KTup [AStr ''b'', AStr ''c''], VList [1, 2])] 2 3 None = Inl DifferentDimensions"
  using dimension_mismatch
    [of "[(KStr ''x'', VInt 3), (KTup [AStr ''a''], VList [1]),
          (KTup [AStr ''b'', AStr ''c''], VList [1, 2])]" None "[AStr ''a'']" "[1]"
        "[AStr ''b'', AStr ''c'']" "[1, 2]" 2 3]
  by simp


section \<open>The sweep generator: the example of the specification\<close>

text \<open>
  Claim C2, as stated: for \<open>variables = {"nodes": [1,4], "x": 10}\<close> with driver
  \<open>"nodes"\<close>, factor 2 and count 3 the sweep generator succeeds. With the \<open>str\<close> key
  \<open>"nodes"\<close> it fails: line 98 requires an integer for a \<open>str\<close> key.
\<close>

theorem sweep_example_counterexample:
  "scale_experiment_variables [(KStr ''nodes'', VList [1, 4]), (KStr ''x'', VInt 10)] 2 3
     (Some (KStr ''nodes'')) = Inl ExpectedStrInt"
  by (simp add: scale_experiment_variables_def resolve_driver_def)

text \<open>
  Claim C2, amended: with the nodes variable named by a tuple of two component names,
  \<open>variables = {("nodes_x", "nodes_y"): [1,4], "x": 10}\<close>, that tuple as the driver,
  factor 2 and count 3, the planner returns the scaling order \<open>[0, 1]\<close> and the sweep
  generator succeeds and returns \<open>[1,2,2]\<close> and \<open>[4,4,8]\<close> for the two component keys and
  \<open>[10,20,40]\<close> for \<open>"x"\<close>.
\<close>

theorem sweep_example:
  "configure_scaling_policy
       [(KTup [AStr ''nodes_x'', AStr ''nodes_y''], VList [1, 4]), (KStr ''x'', VInt 10)]
       (KTup [AStr ''nodes_x'', AStr ''nodes_y'']) = Inr [0, 1]
   \<and> scale_experiment_variables
       [(KTup [AStr ''nodes_x'', AStr ''nodes_y''], VList [1, 4]), (KStr ''x'', VInt 10)] 2 3
       (Some (KTup [AStr ''nodes_x'', AStr ''nodes_y'']))
     = Inr [(AStr ''nodes_x'', VList [1, 2, 2]), (AStr ''nodes_y'', VList [4, 4, 8]),
            (AStr ''x'', VList [10, 20, 40])]"
  by code_simp


section \<open>The sweep generator: no scaling for a count of at most one\<close>

lemma check_variables_entry_ok:
  "check_variables n vars = Inr m \<Longrightarrow> list_all entry_ok vars"
  by (induction n vars rule: check_variables.induct)
     (auto split: val.splits if_splits simp: Let_def)

lemma zip_nth_map:
  "length ks = length vs \<Longrightarrow> zip ks vs = map (\<lambda>i. (ks ! i, vs ! i)) [0..<length ks]"
  by (rule nth_equalityI) simp_all

lemma fold_index_zip:
  assumes "length ks = length vs"
  shows "fold (\<lambda>i out. dict_set out (ks ! i) (g (vs ! i))) [0..<length ks] out =
         fold (\<lambda>(a, v) out. dict_set out a (g v)) (zip ks vs) out"
  by (simp add: zip_nth_map[OF assms] fold_map comp_def)

lemma reduce_single: "reduce [x] = VInt x"
  by (simp add: reduce_def)

lemma unpack_item_seed:
  assumes "entry_ok (k, v)"
  shows "unpack_item out (k, seed v) =
         fold (\<lambda>(a, x) out. dict_set out a (VInt x)) (components (k, v)) out"
  using assms
proof (cases "(k, v)" rule: entry_ok.cases)
  case (1 s i)
  then show ?thesis by (simp add: reduce_single)
next
  case (2 ks xs)
  with assms have len: "length ks = length xs" by simp
  have "fold (\<lambda>i out. dict_set out (ks ! i) (reduce (map (\<lambda>v. [v]) xs ! i))) [0..<length ks] out
        = fold (\<lambda>(a, v) out. dict_set out a (reduce v)) (zip ks (map (\<lambda>v. [v]) xs)) out"
    using fold_index_zip[of ks "map (\<lambda>v. [v]) xs" reduce out] len by simp
  also have "zip ks (map (\<lambda>v. [v]) xs) = map (\<lambda>(a, x). (a, [x])) (zip ks xs)"
    by (simp add: zip_map2)
  finally show ?thesis using 2
    by (simp add: fold_map comp_def reduce_single case_prod_unfold)
qed (use assms in auto)

lemma unpack_seeds_gen:
  "list_all entry_ok vars \<Longrightarrow>
     fold (\<lambda>item out. unpack_item out item) (map (\<lambda>(key, val). (key, seed val)) vars) out =
     fold (\<lambda>(a, x) out. dict_set out a (VInt x)) (concat (map components vars)) out"
proof (induction vars arbitrary: out)
  case Nil
  then show ?case by simp
next
  case (Cons p vars)
  obtain k v where p: "p = (k, v)" by (cases p)
  from Cons.prems have ok: "entry_ok (k, v)" and oks: "list_all entry_ok vars"
    by (simp_all add: p)
  show ?case
    by (simp add: p unpack_item_seed[OF ok] Cons.IH[OF oks])
qed

lemma unpack_seeds:
  "list_all entry_ok vars \<Longrightarrow>
     unpack (map (\<lambda>(key, val). (key, seed val)) vars) = base_values vars"
  by (simp add: unpack_def base_values_def unpack_seeds_gen)

lemma dict_set_fresh: "a \<notin> fst ` set out \<Longrightarrow> dict_set out a v = out @ [(a, v)]"
  by (induction out) auto

lemma fold_dict_set_distinct:
  "distinct (map fst ps) \<Longrightarrow> fst ` set ps \<inter> fst ` set out = {} \<Longrightarrow>
     fold (\<lambda>(a, x) out. dict_set out a (g x)) ps out = out @ map (\<lambda>(a, x). (a, g x)) ps"
proof (induction ps arbitrary: out)
  case Nil
  then show ?case by simp
next
  case (Cons p ps)
  obtain a x where p: "p = (a, x)" by (cases p)
  from Cons.prems have fresh: "a \<notin> fst ` set out" by (auto simp: p)
  have "fst ` set ps \<inter> fst ` set (out @ [(a, x')]) = {}" for x'
    using Cons.prems by (auto simp: p)
  moreover have "distinct (map fst ps)" using Cons.prems by simp
  ultimately show ?case
    by (simp add: p dict_set_fresh[OF fresh] Cons.IH)
qed

lemma driver_value_not_empty:
  assumes "list_all entry_ok vars" and "k \<in> fst ` set vars" and "k \<noteq> KTup []"
  shows "\<exists>v. map_of vars k = Some v \<and> v \<noteq> VList []"
proof -
  from assms(2) obtain v where v: "map_of vars k = Some v"
    by (metis domD dom_map_of_conv_image_fst)
  then have "(k, v) \<in> set vars" by (rule map_of_SomeD)
  with assms(1) have "entry_ok (k, v)" by (simp add: list_all_iff)
  with assms(3) have "v \<noteq> VList []" by (cases "(k, v)" rule: entry_ok.cases) auto
  with v show ?thesis by blast
qed

lemma sweep_no_scaling:
  assumes "check_variables None vars = Inr n"
    and "resolve_driver vars drv \<in> fst ` set vars"
    and "resolve_driver vars drv \<noteq> KTup []"
    and "c \<le> 1"
  shows "scale_experiment_variables vars f c drv = Inr (base_values vars)"
proof -
  have ok: "list_all entry_ok vars" using assms(1) by (rule check_variables_entry_ok)
  from driver_value_not_empty[OF ok assms(2,3)] obtain v where
    v: "map_of vars (resolve_driver vars drv) = Some v" "v \<noteq> VList []" by blast
  from min_dim_of_spec[OF v(2)] obtain s where s: "min_dim_of v = Inr s" by blast
  have ne: "vars \<noteq> []" using assms(2) by auto
  have "nat (c - 1) = 0" using assms(4) by simp
  then show ?thesis using ne assms(1,2) v(1) s
    by (simp add: scale_experiment_variables_def configure_scaling_policy_def Let_def
        unpack_seeds[OF ok])
qed

text \<open>
  Claim C8, as stated: for every valid variable set and every factor, a count of 1
  returns the original values, each tuple component and each scalar name with its base
  value as a bare integer. It fails on the set \<open>{(): []}\<close>, which passes the validation:
  the driver is the empty tuple and \<open>min([])\<close> raises \<open>ValueError\<close> in the planner. It
  also fails when a component name occurs twice: with \<open>{("a", "a"): [1, 2]}\<close> the result
  is \<open>{"a": 2}\<close>, and the first component does not have its base value 1.
\<close>

theorem count_one_counterexample:
  "scale_experiment_variables [(KTup [], VList [])] 2 1 None = Inl ValueError
   \<and> scale_experiment_variables [(KTup [AStr ''a'', AStr ''a''], VList [1, 2])] 2 1 None
       = Inr [(AStr ''a'', VInt 2)]"
  by code_simp

text \<open>
  Claim C8, amended: for every variable set that passes the validation and, unless it
  is empty, has a resolved driver that is a key other than the empty tuple, and for
  every factor, a count of 1 returns the dictionary that is assigned, in order, the
  base value of each tuple component and each scalar name as a bare integer; when the
  component and scalar names are pairwise distinct, this is the list of all names, each
  with its base value.
\<close>

theorem count_one_base_values:
  assumes "check_variables None input_variables = Inr n"
    and "input_variables \<noteq> [] \<longrightarrow>
           (if falsy scaling_variable then fst (hd input_variables) else the scaling_variable)
             \<in> fst ` set input_variables
         \<and> (if falsy scaling_variable then fst (hd input_variables) else the scaling_variable)
             \<noteq> KTup []"
  shows "scale_experiment_variables input_variables f 1 scaling_variable
           = Inr (base_values input_variables)
         \<and> (distinct (map fst (concat (map components input_variables))) \<longrightarrow>
              base_values input_variables
                = map (\<lambda>(a, x). (a, VInt x)) (concat (map components input_variables)))"
proof -
  have "scale_experiment_variables input_variables f 1 scaling_variable
           = Inr (base_values input_variables)"
  proof (cases "input_variables = []")
    case True
    then show ?thesis by (simp add: scale_experiment_variables_def base_values_def)
  next
    case False
    with assms show ?thesis
      by (intro sweep_no_scaling[where n = n]) (simp_all add: resolve_driver_def)
  qed
  moreover have "base_values input_variables
                = map (\<lambda>(a, x). (a, VInt x)) (concat (map components input_variables))"
    if "distinct (map fst (concat (map components input_variables)))"
    using fold_dict_set_distinct[OF that, of "[]" VInt] by (simp add: base_values_def)
  ultimately show ?thesis by blast
qed

theorem count_one_base_values_witness:
  "check_variables None
     [(KTup [AStr ''a'', AStr ''b''], VList [4, 1]), (KStr ''x'', VInt 10)] = Inr (Some 2)
   \<and> KTup [AStr ''a'', AStr ''b'']
       \<in> fst ` set [(KTup [AStr ''a'', AStr ''b''], VList [4, 1]), (KStr ''x'', VInt 10)]
   \<and> KTup [AStr ''a'', AStr ''b''] \<noteq> KTup []
   \<and> scale_experiment_variables
       [(KTup [AStr ''a'', AStr ''b''], VList [4, 1]), (KStr ''x'', VInt 10)] 3 1 None
       = Inr [(AStr ''a'', VInt 4), (AStr ''b'', VInt 1), (AStr ''x'', VInt 10)]"
  using count_one_base_values
    [of "[(KTup [AStr ''a'', AStr ''b''], VList [4, 1]), (KStr ''x'', VInt 10)]" "Some 2" None 3]
  by (simp add: base_values_def)

text \<open>
  Claim C10, as stated: for every valid non-empty variable set, every factor and every
  count of at most 0, the sweep generator returns what it returns for a count of 1, the
  base values, and raises no error. It fails on the set \<open>{(): []}\<close>, which passes the
  validation: the planner raises \<open>ValueError\<close> before the loop, for every count. And
  when a component name occurs twice, as in \<open>{("a", "a"): [1, 2]}\<close>, the result is
  \<open>{"a": 2}\<close>: the first component does not have its base value.
\<close>

theorem count_nonpositive_counterexample:
  "scale_experiment_variables [(KTup [], VList [])] 2 0 None = Inl ValueError
   \<and> scale_experiment_variables [(KTup [AStr ''a'', AStr ''a''], VList [1, 2])] 2 (- 3) None
       = Inr [(AStr ''a'', VInt 2)]"
  by code_simp

text \<open>
  Claim C10, amended: for every variable set that passes the validation and whose
  resolved driver is a key other than the empty tuple, every factor and every count of
  at most 0, the sweep generator returns the same result as for a count of 1, which is
  the dictionary of the base values: no scaling is applied and no error is raised.
\<close>

theorem count_nonpositive_as_one:
  assumes "c \<le> 0"
    and "check_variables None input_variables = Inr n"
    and "(if falsy scaling_variable then fst (hd input_variables) else the scaling_variable)
           \<in> fst ` set input_variables"
    and "(if falsy scaling_variable then fst (hd input_variables) else the scaling_variable)
           \<noteq> KTup []"
  shows "scale_experiment_variables input_variables f c scaling_variable
           = scale_experiment_variables input_variables f 1 scaling_variable
         \<and> scale_experiment_variables input_variables f c scaling_variable
           = Inr (base_values input_variables)"
proof -
  have r: "resolve_driver input_variables scaling_variable \<in> fst ` set input_variables"
    "resolve_driver input_variables scaling_variable \<noteq> KTup []"
    using assms(3,4) by (simp_all add: resolve_driver_def)
  have "c \<le> 1" using assms(1) by simp
  from sweep_no_scaling[OF assms(2) r this] sweep_no_scaling[OF assms(2) r, of 1]
  show ?thesis by simp
qed

theorem count_nonpositive_as_one_witness:
  "(- 2 :: int) \<le> 0
   \<and> check_variables None
     [(KStr ''x'', VInt 10), (KTup [AStr ''a'', AStr ''b''], VList [4, 1])] = Inr (Some 2)
   \<and> KStr ''x''
       \<in> fst ` set [(KStr ''x'', VInt 10), (KTup [AStr ''a'', AStr ''b''], VList [4, 1])]
   \<and> KStr ''x'' \<noteq> KTup []
   \<and> scale_experiment_variables
       [(KStr ''x'', VInt 10), (KTup [AStr ''a'', AStr ''b''], VList [4, 1])] 3 (- 2)
       (Some (KStr ''x''))
       = Inr [(AStr ''x'', VInt 10), (AStr ''a'', VInt 4), (AStr ''b'', VInt 1)]"
  using count_nonpositive_as_one
    [of "- 2" "[(KStr ''x'', VInt 10), (KTup [AStr ''a'', AStr ''b''], VList [4, 1])]" "Some 2"
        "Some (KStr ''x'')" 3]
  by (auto simp: base_values_def)


section \<open>The sweep generator: round-robin fairness\<close>

lemma times_scaled_0: "times_scaled ord d 0 = 0"
  by (simp add: times_scaled_def)

lemma times_scaled_Suc:
  "times_scaled ord d (Suc j) =
     times_scaled ord d j + (if ord ! (j mod length ord) = d then 1 else 0)"
  by (simp add: times_scaled_def)

lemma hit_iff:
  assumes "t < (k::nat)"
  shows "((n + k - t) mod k = 0) = (n mod k = t)"
proof
  assume a: "(n + k - t) mod k = 0"
  have "n mod k = (n + k) mod k" by simp
  also have "n + k = (n + k - t) + t" using assms by simp
  also have "\<dots> mod k = ((n + k - t) mod k + t) mod k" by (simp add: mod_add_left_eq)
  also have "\<dots> = t" using a assms by simp
  finally show "n mod k = t" .
next
  assume a: "n mod k = t"
  have "n + k - t = k * (n div k) + k"
    using a assms by (metis add.commute add_diff_cancel_left' add.assoc mult_div_mod_eq)
  then show "(n + k - t) mod k = 0" by simp
qed

lemma count_residue:
  assumes "t < (k::nat)"
  shows "length (filter (\<lambda>e. e mod k = t) [0..<n]) = (n + k - 1 - t) div k"
proof (induction n)
  case 0
  have "k - 1 - t < k" using assms by simp
  then show ?case by simp
next
  case (Suc n)
  have le: "t \<le> n + k - 1" using assms by simp
  have "Suc n + k - 1 - t = Suc (n + k - 1 - t)" using assms by simp
  then have "(Suc n + k - 1 - t) div k =
        (if Suc (n + k - 1 - t) mod k = 0 then Suc ((n + k - 1 - t) div k)
         else (n + k - 1 - t) div k)"
    by (simp add: div_Suc)
  moreover have "Suc (n + k - 1 - t) = n + k - t" using assms by simp
  ultimately have "(Suc n + k - 1 - t) div k =
        (if n mod k = t then Suc ((n + k - 1 - t) div k) else (n + k - 1 - t) div k)"
    using hit_iff[OF assms, of n] by simp
  then show ?case using Suc.IH by simp
qed

lemma rot_nth:
  "e < k \<Longrightarrow> map (\<lambda>i. (s + i) mod (k::nat)) [0..<k] ! e = (s + e) mod k"
  by simp

lemma rot_select:
  assumes "0 < (k::nat)"
  shows "map (\<lambda>i. (s + i) mod k) [0..<k] ! (e mod length (map (\<lambda>i. (s + i) mod k) [0..<k]))
           = (s + e) mod k"
  using assms by (simp add: mod_add_right_eq)

lemma rot_hit_residue:
  assumes "t < (k::nat)" and "(s + t) mod k = d"
  shows "((s + e) mod k = d) = (e mod k = t)"
proof
  assume "(s + e) mod k = d"
  then have "(s + e mod k) mod k = (s + t) mod k"
    using assms(2) by (simp add: mod_add_right_eq)
  moreover have "e mod k < k" using assms(1) by simp
  ultimately show "e mod k = t" using rot_inj[of "e mod k" k t s] assms(1) by simp
next
  assume "e mod k = t"
  then have "(s + e) mod k = (s + t) mod k" by (metis mod_add_right_eq)
  with assms(2) show "(s + e) mod k = d" by simp
qed

lemma times_scaled_rot:
  assumes "d < (k::nat)"
  shows "\<exists>t<k. \<forall>n. times_scaled (map (\<lambda>i. (s + i) mod k) [0..<k]) d n = (n + k - 1 - t) div k"
proof -
  have "d \<in> (\<lambda>i. (s + i) mod k) ` {0..<k}" using assms by (simp add: rot_image)
  then obtain t where t: "t < k" "(s + t) mod k = d" by auto
  have k: "0 < k" using assms by simp
  have "times_scaled (map (\<lambda>i. (s + i) mod k) [0..<k]) d n = (n + k - 1 - t) div k" for n
  proof -
    have "times_scaled (map (\<lambda>i. (s + i) mod k) [0..<k]) d n
            = length (filter (\<lambda>e. (s + e) mod k = d) [0..<n])"
      unfolding times_scaled_def using rot_select[OF k] by simp
    also have "\<dots> = length (filter (\<lambda>e. e mod k = t) [0..<n])"
      using rot_hit_residue[OF t] by simp
    also have "\<dots> = (n + k - 1 - t) div k" by (rule count_residue[OF t(1)])
    finally show ?thesis .
  qed
  with t(1) show ?thesis by blast
qed

lemma floor_or_ceil:
  assumes "t < (k::nat)"
  shows "(n + k - 1 - t) div k = n div k \<or> (n + k - 1 - t) div k = (n + k - 1) div k"
proof -
  have lo: "n div k \<le> (n + k - 1 - t) div k"
    using assms by (intro div_le_mono) simp
  have hi: "(n + k - 1 - t) div k \<le> (n + k - 1) div k"
    by (intro div_le_mono) simp
  have "(n + k - 1) div k \<le> (n + k) div k" by (intro div_le_mono) simp
  also have "\<dots> = Suc (n div k)" using assms div_add_self2[of k n] by simp
  finally have "(n + k - 1) div k \<le> Suc (n div k)" .
  with lo hi show ?thesis by linarith
qed

lemma times_scaled_fair:
  assumes "d < (k::nat)"
  shows "times_scaled (map (\<lambda>i. (s + i) mod k) [0..<k]) d n = n div k
       \<or> times_scaled (map (\<lambda>i. (s + i) mod k) [0..<k]) d n = (n + k - 1) div k"
  using times_scaled_rot[OF assms, of s] floor_or_ceil by metis

lemma times_scaled_sum:
  assumes "0 < (k::nat)"
  shows "(\<Sum>d<k. times_scaled (map (\<lambda>i. (s + i) mod k) [0..<k]) d n) = n"
proof (induction n)
  case 0
  then show ?case by (simp add: times_scaled_0)
next
  case (Suc n)
  let ?ord = "map (\<lambda>i. (s + i) mod k) [0..<k]"
  have sel: "?ord ! (n mod length ?ord) = (s + n) mod k" by (rule rot_select[OF assms])
  have "(s + n) mod k \<in> {..<k}" using assms by simp
  then have "(\<Sum>d<k. if (s + n) mod k = d then 1 else (0::nat)) = 1"
    by (simp add: sum.delta)
  then show ?case using Suc.IH
    by (simp only: times_scaled_Suc sel sum.distrib)
qed

lemma scale_loop_append:
  "scale_loop ord f (es @ [e]) sv =
     (case scale_loop ord f es sv of Inl err \<Rightarrow> Inl err | Inr sv' \<Rightarrow> scale_step ord f e sv')"
  by (induction es arbitrary: sv) (auto split: sum.splits)

lemma scale_param_select:
  assumes "length param = length ord" and "ord \<noteq> []" and "length ord = 1 \<longrightarrow> ord = [0]"
  shows "scale_param ord f e param =
         Inr (map (\<lambda>(d, p). p @ [if d = ord ! (e mod length ord) then last p * f else last p])
                (enumerate 0 param))"
proof (cases "length param = 1")
  case True
  then obtain p where p: "param = [p]" by (cases param) auto
  from True assms have "ord = [0]" by simp
  then show ?thesis by (simp add: scale_param_def p)
next
  case False
  moreover have "param \<noteq> []" using assms(1,2) by auto
  ultimately show ?thesis using assms(2) by (simp add: scale_param_def)
qed

lemma enumerate_map_upt:
  "enumerate 0 (map g [0..<k]) = map (\<lambda>d. (d, g d)) [0..<k]"
  by (simp add: enumerate_eq_zip zip_map2 zip_same_conv_map)

lemma sweep_values_0: "sweep_values ord f base 0 = seed (VList base)"
  by (simp add: sweep_values_def times_scaled_0 map_nth[symmetric] del: map_nth)
    (rule nth_equalityI, simp_all)

lemma sweep_values_step:
  assumes "length ord = length base" and "ord \<noteq> []" and "length ord = 1 \<longrightarrow> ord = [0]"
  shows "scale_param ord f j (sweep_values ord f base j) = Inr (sweep_values ord f base (Suc j))"
proof -
  have len: "length (sweep_values ord f base j) = length ord"
    using assms(1) by (simp add: sweep_values_def)
  show ?thesis
    unfolding scale_param_select[OF len assms(2,3)]
    unfolding sweep_values_def enumerate_map_upt
    by (simp add: times_scaled_Suc)
qed

lemma scale_loop_single:
  assumes "length ord = length base" and "ord \<noteq> []" and "length ord = 1 \<longrightarrow> ord = [0]"
  shows "scale_loop ord f [0..<n] [(k, seed (VList base))] = Inr [(k, sweep_values ord f base n)]"
proof (induction n)
  case 0
  show ?case by (simp add: sweep_values_0)
next
  case (Suc n)
  have "scale_loop ord f [0..<Suc n] [(k, seed (VList base))] =
        scale_step ord f n [(k, sweep_values ord f base n)]"
    using Suc.IH by (simp add: scale_loop_append del: seed.simps)
  also have "\<dots> = Inr [(k, sweep_values ord f base (Suc n))]"
    by (simp add: sweep_values_step[OF assms])
  finally show ?case .
qed

lemma last_sweep_values:
  "map last (sweep_values ord f base n) =
     map (\<lambda>d. base ! d * f ^ times_scaled ord d n) [0..<length base]"
  by (simp add: sweep_values_def last_map)

lemma prod_sweep_values:
  assumes "0 < length base"
  shows "prod_list (map last (sweep_values (map (\<lambda>i. (s + i) mod length base) [0..<length base])
                               f base n)) = prod_list base * f ^ n"
proof -
  let ?k = "length base"
  let ?ord = "map (\<lambda>i. (s + i) mod ?k) [0..<?k]"
  have "prod_list (map last (sweep_values ?ord f base n)) =
        (\<Prod>d\<in>set [0..<?k]. base ! d * f ^ times_scaled ?ord d n)"
    by (simp only: last_sweep_values prod.distinct_set_conv_list[OF distinct_upt])
  also have "\<dots> = (\<Prod>d\<in>set [0..<?k]. base ! d) * (\<Prod>d\<in>set [0..<?k]. f ^ times_scaled ?ord d n)"
    by (rule prod.distrib)
  also have "(\<Prod>d\<in>set [0..<?k]. base ! d) = prod_list (map (\<lambda>d. base ! d) [0..<?k])"
    by (rule prod.distinct_set_conv_list[OF distinct_upt])
  also have "map (\<lambda>d. base ! d) [0..<?k] = base" by (rule map_nth)
  also have "(\<Prod>d\<in>set [0..<?k]. f ^ times_scaled ?ord d n) =
             f ^ (\<Sum>d\<in>set [0..<?k]. times_scaled ?ord d n)"
    by (simp add: power_sum)
  also have "(\<Sum>d\<in>set [0..<?k]. times_scaled ?ord d n) = n"
    using times_scaled_sum[OF assms, of s n] by (simp add: atLeast0LessThan)
  finally show ?thesis .
qed

lemma unpack_single:
  assumes "length names = length accs"
  shows "unpack [(KTup names, accs)] =
         fold (\<lambda>(a, v) out. dict_set out a (reduce v)) (zip names accs) []"
  using fold_index_zip[OF assms, of reduce "[]"] by (simp add: unpack_def)

lemma unpack_single_distinct:
  assumes "length names = length accs" and "distinct names"
    and "\<forall>acc\<in>set accs. 1 < length acc"
  shows "unpack [(KTup names, accs)] = zip names (map VList accs)"
proof -
  have d: "distinct (map fst (zip names accs))" using assms(1,2) by simp
  have "unpack [(KTup names, accs)] = map (\<lambda>(a, v). (a, reduce v)) (zip names accs)"
    using fold_dict_set_distinct[OF d, of "[]" reduce] by (simp add: unpack_single[OF assms(1)])
  also have "\<dots> = zip names (map reduce accs)" by (simp add: zip_map2)
  also have "map reduce accs = map VList accs"
    using assms(3) by (intro map_cong) (simp_all add: reduce_def)
  finally show ?thesis .
qed

text \<open>
  Claim C4: for a variable set that consists of one tuple-named variable of
  dimensionality \<open>k \<ge> 1\<close>, with that variable as the driver, and every count with
  \<open>count - 1 \<ge> k\<close>, the sweep generator succeeds; the sequence of dimension \<open>d\<close> is its
  base value times the factor to the power of the number of experiments that selected
  \<open>d\<close>, for each of the \<open>count\<close> experiments; each dimension is selected exactly
  \<open>floor((count-1)/k)\<close> or \<open>ceil((count-1)/k)\<close> times; and the product of the \<open>k\<close>
  dimension values at the last experiment is the product of the base values times
  \<open>factor^(count-1)\<close>. With distinct component names the result lists every component
  name with its sequence.
\<close>

theorem round_robin_fairness:
  assumes "list_all is_str names" and "length base = length names" and "names \<noteq> []"
    and "int (length names) \<le> c - 1"
  shows "\<exists>ord accs.
      configure_scaling_policy [(KTup names, VList base)] (KTup names) = Inr ord
    \<and> scale_loop ord f [0..<nat (c - 1)] [(KTup names, seed (VList base))]
        = Inr [(KTup names, accs)]
    \<and> scale_experiment_variables [(KTup names, VList base)] f c (Some (KTup names))
        = Inr (unpack [(KTup names, accs)])
    \<and> length accs = length names
    \<and> (\<forall>d<length names.
          accs ! d = map (\<lambda>j. base ! d * f ^ times_scaled ord d j) [0..<nat c]
        \<and> (times_scaled ord d (nat (c - 1)) = nat (c - 1) div length names
           \<or> times_scaled ord d (nat (c - 1))
               = (nat (c - 1) + length names - 1) div length names))
    \<and> prod_list (map last accs) = prod_list base * f ^ nat (c - 1)
    \<and> (distinct names \<longrightarrow> unpack [(KTup names, accs)] = zip names (map VList accs))"
proof -
  let ?k = "length names"
  let ?n = "nat (c - 1)"
  let ?K = "KTup names"
  have k: "0 < ?k" using assms(3) by simp
  have lb: "length base = ?k" by (rule assms(2))
  have n: "?k \<le> ?n" "nat c = Suc ?n" using assms(4) k by simp_all
  have "VList base \<noteq> VList []" using k lb by auto
  from min_dim_of_spec[OF this] obtain s where s: "min_dim_of (VList base) = Inr s" by blast
  define ord where "ord = map (\<lambda>i. (s + i) mod ?k) [0..<?k]"
  define accs where "accs = sweep_values ord f base ?n"
  have conf: "configure_scaling_policy [(?K, VList base)] ?K = Inr ord"
    using s by (simp add: configure_scaling_policy_def ord_def lb Let_def del: min_dim_of.simps)
  have ord_len: "length ord = length base" by (simp add: ord_def lb)
  have ord_ne: "ord \<noteq> []" using k by (simp add: ord_def)
  have ord_one: "length ord = 1 \<longrightarrow> ord = [0]" by (auto simp: ord_def)
  have loop: "scale_loop ord f [0..<?n] [(?K, seed (VList base))] = Inr [(?K, accs)]"
    unfolding accs_def by (rule scale_loop_single[OF ord_len ord_ne ord_one])
  have chk: "check_variables None [(?K, VList base)] = Inr (Some ?k)"
    using assms(1) k lb by simp
  have res: "resolve_driver [(?K, VList base)] (Some ?K) = ?K"
    using assms(3) by (simp add: resolve_driver_def)
  have sweep: "scale_experiment_variables [(?K, VList base)] f c (Some ?K)
                 = Inr (unpack [(?K, accs)])"
    using loop
    by (simp add: scale_experiment_variables_def res chk conf
             del: seed.simps check_variables.simps)
  have len: "length accs = ?k" by (simp add: accs_def sweep_values_def lb)
  have vals: "accs ! d = map (\<lambda>j. base ! d * f ^ times_scaled ord d j) [0..<nat c]"
    if "d < ?k" for d
    using that by (simp add: accs_def sweep_values_def lb n(2) del: upt_Suc)
  have fair: "times_scaled ord d ?n = ?n div ?k \<or> times_scaled ord d ?n = (?n + ?k - 1) div ?k"
    if "d < ?k" for d
    unfolding ord_def by (rule times_scaled_fair[OF that])
  have prod: "prod_list (map last accs) = prod_list base * f ^ ?n"
    using prod_sweep_values[of base s f ?n] k by (simp add: accs_def ord_def lb)
  have "0 < ?n" using n(1) k by linarith
  then have long: "\<forall>acc\<in>set accs. 1 < length acc"
    by (auto simp: accs_def sweep_values_def)
  have out: "unpack [(?K, accs)] = zip names (map VList accs)" if "distinct names"
    by (rule unpack_single_distinct[OF len[symmetric] that long])
  from conf loop sweep len vals fair prod out show ?thesis by blast
qed

theorem round_robin_fairness_witness:
  "list_all is_str [AStr ''a'', AStr ''b'']
   \<and> length [4, 1 :: int] = length [AStr ''a'', AStr ''b'']
   \<and> [AStr ''a'', AStr ''b''] \<noteq> []
   \<and> int (length [AStr ''a'', AStr ''b'']) \<le> 4 - 1
   \<and> scale_experiment_variables [(KTup [AStr ''a'', AStr ''b''], VList [4, 1])] 2 4
        (Some (KTup [AStr ''a'', AStr ''b'']))
      = Inr [(AStr ''a'', VList [4, 4, 8, 8]), (AStr ''b'', VList [1, 2, 2, 4])]"
proof -
  have h: "scale_experiment_variables [(KTup [AStr ''a'', AStr ''b''], VList [4, 1])] 2 4
        (Some (KTup [AStr ''a'', AStr ''b'']))
      = Inr [(AStr ''a'', VList [4, 4, 8, 8]), (AStr ''b'', VList [1, 2, 2, 4])]"
    by code_simp
  show ?thesis
    using round_robin_fairness [of "[AStr ''a'', AStr ''b'']" "[4, 1]" 4 2] h by simp
qed


end
